theory Spec2Isabelle
  imports Main "HOL-Library.Word" "HOL-Library.Sublist"
begin

section \<open>The database behind the driver\<close>

text \<open>
  \<open>migrate.go\<close> reaches MongoDB only through calls of the mongo driver on \<open>m.db\<close>:
  \<open>ListCollectionNames\<close>, \<open>RunCommand\<close> (create), \<open>Find\<close>, \<open>Decode\<close> and
  \<open>InsertOne\<close>. A collection is the list of its documents in insertion order (the order
  of \<open>_id\<close>). A call that reaches the server may fail: the field \<open>pending\<close> lists the
  outcomes of the coming calls, \<open>Some e\<close> for a call that fails with \<open>e\<close>, and a call made
  when the list is exhausted succeeds. The field \<open>clock\<close> is what \<open>time.Now().UTC()\<close>
  reads, and \<open>payload\<close> stands for everything else the migration actions work on.
\<close>

datatype error = ErrNoDocuments | EOF | EncodeError string | Failure string

record versionRecord =
  vr_Version :: "64 word"
  vr_Description :: string
  vr_Timestamp :: nat

record 'd database =
  colls :: "(string \<times> versionRecord list) list"
  pending :: "error option list"
  clock :: nat
  payload :: 'd

definition driver_call :: "'d database \<Rightarrow> error option \<times> 'd database" where
  "driver_call d = (case pending d of [] \<Rightarrow> (None, d) | f # fs \<Rightarrow> (f, d\<lparr>pending := fs\<rparr>))"

definition lookup_collection ::
  "(string \<times> versionRecord list) list \<Rightarrow> string \<Rightarrow> versionRecord list" where
  "lookup_collection cs name = (case map_of cs name of None \<Rightarrow> [] | Some rs \<Rightarrow> rs)"

definition documents :: "string \<Rightarrow> 'd database \<Rightarrow> versionRecord list" where
  "documents name d = lookup_collection (colls d) name"

text \<open>
  The filters of the source are values of the package \<open>github.com/globalsign/mgo/bson\<close>
  (line 9): \<open>bson.D{}\<close> at line 59, \<open>bson.M{}\<close> at line 100 and
  \<open>bson.M{"version": version}\<close> at line 120. The mongo driver encodes them by their Go
  kind: \<open>bson.M\<close> is a map and becomes a document; mgo's \<open>bson.D\<close> is a slice of
  structs, which the driver writes as an array, and an array is refused where a document
  is expected. The call then fails before it reaches the server.
\<close>

datatype mgo_bson = MgoD | MgoM | MgoM_version "64 word"

fun marshals :: "mgo_bson \<Rightarrow> bool" where
  "marshals MgoD = False"
| "marshals MgoM = True"
| "marshals (MgoM_version v) = True"

fun matches :: "mgo_bson \<Rightarrow> versionRecord \<Rightarrow> bool" where
  "matches MgoD r = True"
| "matches MgoM r = True"
| "matches (MgoM_version v) r = (vr_Version r = v)"

definition ListCollectionNames ::
  "mgo_bson \<Rightarrow> 'd database \<Rightarrow> (error + string list) \<times> 'd database" where
  "ListCollectionNames filter_doc d =
     (if \<not> marshals filter_doc then (Inl (EncodeError ''filter''), d)
      else
        (case driver_call d of
           (Some e, d') \<Rightarrow> (Inl e, d')
         | (None, d') \<Rightarrow> (Inr (map fst (colls d')), d')))"

text \<open>The \<open>create\<close> command: the server refuses a name that is already taken.\<close>

definition RunCommand_create :: "string \<Rightarrow> 'd database \<Rightarrow> error option \<times> 'd database" where
  "RunCommand_create name d =
     (case driver_call d of
        (Some e, d') \<Rightarrow> (Some e, d')
      | (None, d') \<Rightarrow>
          if name \<in> set (map fst (colls d')) then (Some (Failure ''NamespaceExists''), d')
          else (None, d'\<lparr>colls := colls d' @ [(name, [])]\<rparr>))"

text \<open>
  \<open>Find\<close> returns a cursor over the matching documents, newest first when the sort is
  \<open>{"_id": -1}\<close>; a query that nothing matches is not an error, its cursor is empty
  (\<open>ErrNoDocuments\<close> is what \<open>FindOne\<close> reports). A fresh cursor has no current
  document: \<open>Next\<close> loads one, and \<open>Decode\<close> reads the current document, so that
  \<open>Decode\<close> on a cursor that was never advanced ends in \<open>EOF\<close>. The source calls
  \<open>Decode\<close> right after \<open>Find\<close> (lines 107 and 127) and has no call of \<open>Next\<close>.
\<close>

record cursor =
  cur_Current :: "versionRecord option"
  cur_batch :: "versionRecord list"

definition Find ::
  "string \<Rightarrow> mgo_bson \<Rightarrow> bool \<Rightarrow> 'd database \<Rightarrow> (error + cursor) \<times> 'd database" where
  "Find name filter_doc newest_first d =
     (if \<not> marshals filter_doc then (Inl (EncodeError ''filter''), d)
      else
        (case driver_call d of
           (Some e, d') \<Rightarrow> (Inl e, d')
         | (None, d') \<Rightarrow>
             let hits = filter (matches filter_doc) (documents name d')
             in (Inr \<lparr>cur_Current = None,
                      cur_batch = (if newest_first then rev hits else hits)\<rparr>, d')))"

definition Decode :: "cursor \<Rightarrow> error + versionRecord" where
  "Decode c = (case cur_Current c of None \<Rightarrow> Inl EOF | Some r \<Rightarrow> Inr r)"

text \<open>
  \<open>InsertOne\<close> appends the document; a collection that does not exist yet is created.
  The driver stores a \<open>uint64\<close> as a signed 64-bit integer and refuses a value above
  \<open>math.MaxInt64\<close>: such a record is not encoded, and nothing is sent.
\<close>

definition uint64_encodes :: "64 word \<Rightarrow> bool" where
  "uint64_encodes v = (v \<le> 9223372036854775807)"

fun insert_doc ::
  "string \<Rightarrow> versionRecord \<Rightarrow> (string \<times> versionRecord list) list \<Rightarrow> (string \<times> versionRecord list) list" where
  "insert_doc name r [] = [(name, [r])]"
| "insert_doc name r ((k, rs) # cs) =
     (if k = name then (k, rs @ [r]) # cs else (k, rs) # insert_doc name r cs)"

definition InsertOne :: "string \<Rightarrow> versionRecord \<Rightarrow> 'd database \<Rightarrow> error option \<times> 'd database" where
  "InsertOne name r d =
     (if \<not> uint64_encodes (vr_Version r) then (Some (EncodeError ''overflows int64''), d)
      else
        (case driver_call d of
           (Some e, d') \<Rightarrow> (Some e, d')
         | (None, d') \<Rightarrow> (None, d'\<lparr>colls := insert_doc name r (colls d')\<rparr>)))"

section \<open>Migrations and the runner\<close>

text \<open>
  Modelled from the spec: the type \<open>Migration\<close> and the function \<open>migrationSort\<close> are
  declared outside \<open>migrate.go\<close>. A migration definition has a version, a description, and
  an optional forward and an optional backward action; an action receives the database
  handle and returns an error or nil. The catalog is sorted ascending by version, with no
  secondary key (versions are unique by the caller's responsibility).
\<close>

type_synonym 'd MigrationFunc = "'d database \<Rightarrow> error option \<times> 'd database"

record 'd Migration =
  mg_Version :: "64 word"
  mg_Description :: string
  mg_Up :: "'d MigrationFunc option"
  mg_Down :: "'d MigrationFunc option"

definition migrationSort :: "'d Migration list \<Rightarrow> 'd Migration list" where
  "migrationSort ms = sort_key mg_Version ms"

text \<open>
  The struct \<open>Migrate\<close>. The logger, when set, collects one line per completed step
  (the arguments of \<open>Printf\<close>). The field \<open>calls\<close> is not in the struct: it observes the
  run, recording every invocation of a forward or backward action in order.
\<close>

datatype log_line = MIGRATED_UP "64 word" string | MIGRATED_DOWN "64 word" string

datatype call = CallUp "64 word" | CallDown "64 word"

record 'd Migrate =
  db :: "'d database"
  migrations :: "'d Migration list"
  migrationsCollection :: string
  logger :: "log_line list option"
  calls :: "call list"

definition defaultMigrationsCollection :: string where
  "defaultMigrationsCollection = ''migrations''"

definition AllAvailable :: int where
  "AllAvailable = - 1"

definition NewMigrate :: "'d database \<Rightarrow> 'd Migration list \<Rightarrow> 'd Migrate" where
  "NewMigrate d ms =
     \<lparr>db = d, migrations = ms, migrationsCollection = defaultMigrationsCollection,
      logger = None, calls = []\<rparr>"

definition SetMigrationsCollection :: "string \<Rightarrow> 'd Migrate \<Rightarrow> 'd Migrate" where
  "SetMigrationsCollection name m = m\<lparr>migrationsCollection := name\<rparr>"

definition SetLogger :: "log_line list option \<Rightarrow> 'd Migrate \<Rightarrow> 'd Migrate" where
  "SetLogger l m = m\<lparr>logger := l\<rparr>"

definition Printf :: "log_line \<Rightarrow> 'd Migrate \<Rightarrow> 'd Migrate" where
  "Printf line m = (case logger m of None \<Rightarrow> m | Some ls \<Rightarrow> m\<lparr>logger := Some (ls @ [line])\<rparr>)"

fun name_in :: "string \<Rightarrow> string list \<Rightarrow> bool" where
  "name_in name [] = False"
| "name_in name (v # vs) = (if name = v then True else name_in name vs)"

definition isCollectionExist :: "string \<Rightarrow> 'd Migrate \<Rightarrow> (error + bool) \<times> 'd Migrate" where
  "isCollectionExist name m =
     (case ListCollectionNames MgoD (db m) of
        (Inl err, d) \<Rightarrow> (Inl err, m\<lparr>db := d\<rparr>)
      | (Inr names, d) \<Rightarrow> (Inr (name_in name names), m\<lparr>db := d\<rparr>))"

definition createCollectionIfNotExist :: "string \<Rightarrow> 'd Migrate \<Rightarrow> error option \<times> 'd Migrate" where
  "createCollectionIfNotExist name m =
     (case isCollectionExist name m of
        (Inl err, m1) \<Rightarrow> (Some err, m1)
      | (Inr exist, m1) \<Rightarrow>
          if exist then (None, m1)
          else (case RunCommand_create name (db m1) of (result, d) \<Rightarrow> (result, m1\<lparr>db := d\<rparr>)))"

text \<open>\<open>Version\<close> returns the triple of the source: version, description, error.\<close>

definition Version :: "'d Migrate \<Rightarrow> (64 word \<times> string \<times> error option) \<times> 'd Migrate" where
  "Version m =
     (case createCollectionIfNotExist (migrationsCollection m) m of
        (Some err, m1) \<Rightarrow> ((0, [], Some err), m1)
      | (None, m1) \<Rightarrow>
          (case Find (migrationsCollection m1) MgoM True (db m1) of
             (Inl err, d) \<Rightarrow>
               if err = ErrNoDocuments then ((0, [], None), m1\<lparr>db := d\<rparr>)
               else ((0, [], Some err), m1\<lparr>db := d\<rparr>)
           | (Inr cursor, d) \<Rightarrow>
               (case Decode cursor of
                  Inl decodeErr \<Rightarrow> ((0, [], Some decodeErr), m1\<lparr>db := d\<rparr>)
                | Inr rec \<Rightarrow> ((vr_Version rec, vr_Description rec, None), m1\<lparr>db := d\<rparr>))))"

definition Applied :: "64 word \<Rightarrow> 'd Migrate \<Rightarrow> bool \<times> 'd Migrate" where
  "Applied version m =
     (case createCollectionIfNotExist (migrationsCollection m) m of
        (Some err, m1) \<Rightarrow> (False, m1)
      | (None, m1) \<Rightarrow>
          (case Find (migrationsCollection m1) (MgoM_version version) False (db m1) of
             (Inl err, d) \<Rightarrow> (False, m1\<lparr>db := d\<rparr>)
           | (Inr cursor, d) \<Rightarrow>
               (case Decode cursor of
                  Inl decodeErr \<Rightarrow> (False, m1\<lparr>db := d\<rparr>)
                | Inr rec \<Rightarrow> (True, m1\<lparr>db := d\<rparr>))))"

definition SetVersion :: "64 word \<Rightarrow> string \<Rightarrow> 'd Migrate \<Rightarrow> error option \<times> 'd Migrate" where
  "SetVersion version description m =
     (case InsertOne (migrationsCollection m)
             \<lparr>vr_Version = version, vr_Description = description, vr_Timestamp = clock (db m)\<rparr>
             (db m) of
        (err, d) \<Rightarrow> (err, m\<lparr>db := d\<rparr>))"

text \<open>
  The count of steps to perform: \<open>n\<close> itself when \<open>0 < n \<le> len(m.migrations)\<close>, the
  length of the catalog otherwise.
\<close>

definition steps :: "int \<Rightarrow> nat \<Rightarrow> nat" where
  "steps n len = (if n \<le> 0 \<or> n > int len then len else nat n)"

text \<open>
  The loop of \<open>Up\<close>, at index \<open>i\<close> with \<open>p\<close> steps performed; \<open>ms\<close> is the sorted
  \<open>m.migrations\<close>, which the loop does not assign.
\<close>

function up_loop ::
  "'d Migration list \<Rightarrow> nat \<Rightarrow> nat \<Rightarrow> nat \<Rightarrow> 'd Migrate \<Rightarrow> error option \<times> 'd Migrate" where
  "up_loop ms n i p m =
     (if i < length ms \<and> p < n then
        (let migration = ms ! i in
         case Applied (mg_Version migration) m of
           (applied, m1) \<Rightarrow>
             if applied then up_loop ms n (Suc i) p m1
             else
               (case mg_Up migration of
                  None \<Rightarrow> up_loop ms n (Suc i) p m1
                | Some action \<Rightarrow>
                    (case action (db m1) of
                       (Some err, d) \<Rightarrow>
                         (Some err, m1\<lparr>db := d, calls := calls m1 @ [CallUp (mg_Version migration)]\<rparr>)
                     | (None, d) \<Rightarrow>
                         (case SetVersion (mg_Version migration) (mg_Description migration)
                                 (Printf (MIGRATED_UP (mg_Version migration) (mg_Description migration))
                                    (m1\<lparr>db := d, calls := calls m1 @ [CallUp (mg_Version migration)]\<rparr>)) of
                            (Some err, m2) \<Rightarrow> (Some err, m2)
                          | (None, m2) \<Rightarrow> up_loop ms n (Suc i) (Suc p) m2))))
      else (None, m))"
  by pat_completeness auto
termination
  by (relation "measure (\<lambda>(ms, n, i, p, m). length ms - i)") auto

declare up_loop.simps [simp del]

definition Up :: "int \<Rightarrow> 'd Migrate \<Rightarrow> error option \<times> 'd Migrate" where
  "Up n m =
     (let sorted = migrationSort (migrations m)
      in up_loop sorted (steps n (length (migrations m))) 0 0 (m\<lparr>migrations := sorted\<rparr>))"

text \<open>
  The loop of \<open>Down\<close>, walking the index down from \<open>len - 1\<close>: the argument \<open>Suc i\<close>
  stands for the index \<open>i\<close>, and \<open>0\<close> for the exit at \<open>i < 0\<close>.
\<close>

fun down_loop ::
  "'d Migration list \<Rightarrow> 64 word \<Rightarrow> nat \<Rightarrow> nat \<Rightarrow> nat \<Rightarrow> 'd Migrate \<Rightarrow> error option \<times> 'd Migrate" where
  "down_loop ms currentVersion n 0 p m = (None, m)"
| "down_loop ms currentVersion n (Suc i) p m =
     (if p < n then
        (let migration = ms ! i in
         if mg_Version migration > currentVersion then down_loop ms currentVersion n i p m
         else
           (case mg_Down migration of
              None \<Rightarrow> down_loop ms currentVersion n i p m
            | Some action \<Rightarrow>
                (case action (db m) of
                   (Some err, d) \<Rightarrow>
                     (Some err, m\<lparr>db := d, calls := calls m @ [CallDown (mg_Version migration)]\<rparr>)
                 | (None, d) \<Rightarrow>
                     (let prevMigration =
                            (if i = 0
                             then \<lparr>mg_Version = 0, mg_Description = [], mg_Up = None, mg_Down = None\<rparr>
                             else ms ! (i - 1))
                      in case SetVersion (mg_Version prevMigration) (mg_Description prevMigration)
                                (Printf (MIGRATED_DOWN (mg_Version migration) (mg_Description migration))
                                   (m\<lparr>db := d, calls := calls m @ [CallDown (mg_Version migration)]\<rparr>)) of
                           (Some err, m2) \<Rightarrow> (Some err, m2)
                         | (None, m2) \<Rightarrow> down_loop ms currentVersion n i (Suc p) m2))))
      else (None, m))"

declare down_loop.simps [simp del]

definition Down :: "int \<Rightarrow> 'd Migrate \<Rightarrow> error option \<times> 'd Migrate" where
  "Down n m =
     (case Version m of
        ((currentVersion, _, Some err), m1) \<Rightarrow> (Some err, m1)
      | ((currentVersion, _, None), m1) \<Rightarrow>
          (let sorted = migrationSort (migrations m1)
           in down_loop sorted currentVersion (steps n (length (migrations m1)))
                (length sorted) 0 (m1\<lparr>migrations := sorted\<rparr>)))"

text \<open>The ledger: the documents of the migrations collection, oldest first.\<close>

definition ledger :: "'d Migrate \<Rightarrow> versionRecord list" where
  "ledger m = documents (migrationsCollection m) (db m)"

section \<open>Vocabulary of the properties\<close>

text \<open>
  \<open>outcome\<close> is the result of the next call that reaches the server and \<open>advance\<close> the
  database once that call is made. \<open>insert_outcome v\<close> is the result of inserting a record
  with version \<open>v\<close>: the encoding error when \<open>v\<close> is above \<open>math.MaxInt64\<close>, the
  outcome of the call otherwise.
\<close>

definition outcome :: "'d database \<Rightarrow> error option" where
  "outcome d = (case pending d of [] \<Rightarrow> None | f # fs \<Rightarrow> f)"

definition advance :: "'d database \<Rightarrow> 'd database" where
  "advance d = d\<lparr>pending := tl (pending d)\<rparr>"

definition insert_outcome :: "64 word \<Rightarrow> 'd database \<Rightarrow> error option" where
  "insert_outcome v d =
     (if uint64_encodes v then outcome d else Some (EncodeError ''overflows int64''))"

text \<open>
  An action leaves the store alone when it changes neither the collections nor the outcomes
  of the runner's coming driver calls: it works on the payload (and the clock) only.
\<close>

definition leaves_store :: "'d MigrationFunc \<Rightarrow> bool" where
  "leaves_store a = (\<forall>d. colls (snd (a d)) = colls d \<and> pending (snd (a d)) = pending d)"

definition actions_leave_store :: "'d Migration list \<Rightarrow> bool" where
  "actions_leave_store ms =
     list_all (\<lambda>mg. (case mg_Up mg of None \<Rightarrow> True | Some a \<Rightarrow> leaves_store a) \<and>
                     (case mg_Down mg of None \<Rightarrow> True | Some a \<Rightarrow> leaves_store a)) ms"

text \<open>
  The predecessor of the catalog entry at sorted index \<open>i\<close>: the entry before it, or
  the sentinel with version 0 and no description for the first entry.
\<close>

definition predecessor :: "'d Migration list \<Rightarrow> nat \<Rightarrow> 'd Migration" where
  "predecessor ms i =
     (if i = 0 then \<lparr>mg_Version = 0, mg_Description = [], mg_Up = None, mg_Down = None\<rparr>
      else ms ! (i - 1))"

text \<open>
  The runner's state once an action has returned (the database it leaves, the call
  observed), and once the step has been logged and its record sent to the store.
\<close>

definition after_action :: "call \<Rightarrow> 'd database \<Rightarrow> 'd Migrate \<Rightarrow> 'd Migrate" where
  "after_action c d m = m\<lparr>db := d, calls := calls m @ [c]\<rparr>"

definition record_step :: "log_line \<Rightarrow> 64 word \<Rightarrow> string \<Rightarrow> 'd Migrate \<Rightarrow> 'd Migrate" where
  "record_step line v description m = snd (SetVersion v description (Printf line m))"

text \<open>Concrete inputs: databases, actions that count in the payload, and catalogs.\<close>

definition fresh_db :: "nat database" where
  "fresh_db = \<lparr>colls = [], pending = [], clock = 0, payload = 0\<rparr>"

definition initialized_db :: "nat database" where
  "initialized_db = \<lparr>colls = [(''migrations'', [])], pending = [], clock = 0, payload = 0\<rparr>"

definition forward :: "nat MigrationFunc" where
  "forward d = (None, d\<lparr>payload := Suc (payload d)\<rparr>)"

definition backward :: "nat MigrationFunc" where
  "backward d = (None, d\<lparr>payload := payload d - 1\<rparr>)"

definition failing :: "nat MigrationFunc" where
  "failing d = (Some (Failure ''action failed''), d)"

definition step :: "64 word \<Rightarrow> string \<Rightarrow> nat Migration" where
  "step v description =
     \<lparr>mg_Version = v, mg_Description = description, mg_Up = Some forward, mg_Down = Some backward\<rparr>"

definition broken :: "64 word \<Rightarrow> nat Migration" where
  "broken v =
     \<lparr>mg_Version = v, mg_Description = ''broken'', mg_Up = Some failing, mg_Down = Some failing\<rparr>"

definition only_up :: "64 word \<Rightarrow> nat Migration" where
  "only_up v =
     \<lparr>mg_Version = v, mg_Description = ''only up'', mg_Up = Some forward, mg_Down = None\<rparr>"

definition only_down :: "64 word \<Rightarrow> nat Migration" where
  "only_down v =
     \<lparr>mg_Version = v, mg_Description = ''only down'', mg_Up = None, mg_Down = Some backward\<rparr>"

definition applied_db :: "nat database" where
  "applied_db =
     \<lparr>colls = [(''migrations'',
                [\<lparr>vr_Version = 10, vr_Description = ''ten'', vr_Timestamp = 0\<rparr>,
                 \<lparr>vr_Version = 20, vr_Description = ''twenty'', vr_Timestamp = 0\<rparr>,
                 \<lparr>vr_Version = 30, vr_Description = ''thirty'', vr_Timestamp = 0\<rparr>])],
      pending = [], clock = 0, payload = 3\<rparr>"

definition first_applied_db :: "nat database" where
  "first_applied_db =
     \<lparr>colls = [(''migrations'',
                [\<lparr>vr_Version = 10, vr_Description = ''ten'', vr_Timestamp = 0\<rparr>])],
      pending = [], clock = 0, payload = 1\<rparr>"

definition applied_2_3_db :: "nat database" where
  "applied_2_3_db =
     \<lparr>colls = [(''migrations'',
                [\<lparr>vr_Version = 2, vr_Description = ''b'', vr_Timestamp = 0\<rparr>,
                 \<lparr>vr_Version = 3, vr_Description = ''only up'', vr_Timestamp = 0\<rparr>])],
      pending = [], clock = 0, payload = 2\<rparr>"

definition second_insert_fails_db :: "nat database" where
  "second_insert_fails_db = fresh_db\<lparr>pending := [None, Some (Failure ''insert failed'')]\<rparr>"

definition catalog_10_20_30 :: "nat Migration list" where
  "catalog_10_20_30 = [step 10 ''ten'', step 20 ''twenty'', step 30 ''thirty'']"

definition halting_catalog :: "nat Migration list" where
  "halting_catalog = [step 1 ''a'', broken 2, step 3 ''c'']"

definition reverting_catalog :: "nat Migration list" where
  "reverting_catalog = [step 10 ''ten'', broken 20, step 30 ''thirty'']"

definition skipping_catalog :: "nat Migration list" where
  "skipping_catalog = [only_down 1, step 2 ''b'', only_up 3]"

definition catalog_1_to_5 :: "nat Migration list" where
  "catalog_1_to_5 = [step 1 ''a'', step 2 ''b'', step 3 ''c'', step 4 ''d'', step 5 ''e'']"

definition catalog_5_1_3 :: "nat Migration list" where
  "catalog_5_1_3 = [step 5 ''e'', step 1 ''a'', step 3 ''c'']"

section \<open>Driver calls: basic facts\<close>

lemma driver_call_eq: "driver_call d = (outcome d, advance d)"
  by (cases "pending d") (simp_all add: driver_call_def outcome_def advance_def)

lemma advance_simps [simp]:
  "colls (advance d) = colls d" "clock (advance d) = clock d" "payload (advance d) = payload d"
  "pending (advance d) = tl (pending d)"
  by (simp_all add: advance_def)

lemma documents_advance [simp]: "documents nm (advance d) = documents nm d"
  by (simp add: documents_def)

lemma documents_colls_update [simp]: "documents nm (d\<lparr>colls := cs\<rparr>) = lookup_collection cs nm"
  by (simp add: documents_def)

lemma lookup_insert_doc:
  "lookup_collection (insert_doc name r cs) nm =
     (if nm = name then lookup_collection cs name @ [r] else lookup_collection cs nm)"
  by (induction cs) (auto simp: lookup_collection_def)

section \<open>The store operations\<close>

text \<open>
  The listing of \<open>isCollectionExist\<close> is made with \<open>bson.D{}\<close>, which the driver does not
  encode: the call fails on every database, before anything is sent.
\<close>

lemma isCollectionExist_eq: "isCollectionExist name m = (Inl (EncodeError ''filter''), m)"
  by (simp add: isCollectionExist_def ListCollectionNames_def)

lemma createCollection_eq:
  "createCollectionIfNotExist name m = (Some (EncodeError ''filter''), m)"
  by (simp add: createCollectionIfNotExist_def isCollectionExist_eq)

lemma Version_eq: "Version m = ((0, [], Some (EncodeError ''filter'')), m)"
  by (simp add: Version_def createCollection_eq)

lemma Applied_eq: "Applied v m = (False, m)"
  by (simp add: Applied_def createCollection_eq)

lemma Down_eq: "Down n m = (Some (EncodeError ''filter''), m)"
  by (simp add: Down_def Version_eq)

text \<open>
  What would follow the listing: a query answers with a cursor that has no current document,
  whatever the collection holds, and decoding it ends in \<open>EOF\<close>.
\<close>

lemma Find_then_Decode:
  "Find name filter_doc newest_first d = (Inr c, d') \<Longrightarrow> Decode c = Inl EOF"
  by (auto simp: Find_def Decode_def Let_def driver_call_eq split: if_splits option.splits)

lemma SetVersion_eq:
  "SetVersion v description m =
     (insert_outcome v (db m),
      m\<lparr>db := (if insert_outcome v (db m) = None
                then (advance (db m))
                     \<lparr>colls := insert_doc (migrationsCollection m)
                        \<lparr>vr_Version = v, vr_Description = description, vr_Timestamp = clock (db m)\<rparr>
                        (colls (db m))\<rparr>
                else if uint64_encodes v then advance (db m) else db m)\<rparr>)"
  by (simp add: SetVersion_def InsertOne_def insert_outcome_def driver_call_eq
      split: option.splits)

lemma SetVersion_frame [simp]:
  "migrations (snd (SetVersion v description m)) = migrations m"
  "migrationsCollection (snd (SetVersion v description m)) = migrationsCollection m"
  "logger (snd (SetVersion v description m)) = logger m"
  "calls (snd (SetVersion v description m)) = calls m"
  "clock (db (snd (SetVersion v description m))) = clock (db m)"
  "payload (db (snd (SetVersion v description m))) = payload (db m)"
  by (simp_all add: SetVersion_eq)

lemma SetVersion_ledger:
  "ledger (snd (SetVersion v description m)) =
     (if insert_outcome v (db m) = None
      then ledger m @ [\<lparr>vr_Version = v, vr_Description = description, vr_Timestamp = clock (db m)\<rparr>]
      else ledger m)"
  by (simp add: SetVersion_eq ledger_def lookup_insert_doc documents_def)

lemma SetVersion_fst: "fst (SetVersion v description m) = insert_outcome v (db m)"
  by (simp add: SetVersion_eq)

lemma Printf_frame [simp]:
  "db (Printf line m) = db m"
  "migrations (Printf line m) = migrations m"
  "migrationsCollection (Printf line m) = migrationsCollection m"
  "calls (Printf line m) = calls m"
  by (simp_all add: Printf_def split: option.splits)

lemma Printf_ledger [simp]: "ledger (Printf line m) = ledger m"
  by (simp add: ledger_def)

section \<open>One iteration of the loops\<close>

lemma after_action_simps [simp]:
  "db (after_action c d m) = d"
  "calls (after_action c d m) = calls m @ [c]"
  "migrations (after_action c d m) = migrations m"
  "migrationsCollection (after_action c d m) = migrationsCollection m"
  "logger (after_action c d m) = logger m"
  by (simp_all add: after_action_def)

lemma ledger_after_action:
  "colls d = colls (db m) \<Longrightarrow> ledger (after_action c d m) = ledger m"
  by (simp add: ledger_def documents_def)

lemma ledger_after_action_eq: "ledger (after_action c d m) = documents (migrationsCollection m) d"
  by (simp add: ledger_def)

lemma record_step_simps [simp]:
  "calls (record_step line v description m) = calls m"
  "migrations (record_step line v description m) = migrations m"
  "migrationsCollection (record_step line v description m) = migrationsCollection m"
  "clock (db (record_step line v description m)) = clock (db m)"
  "payload (db (record_step line v description m)) = payload (db m)"
  by (simp_all add: record_step_def)

lemma ledger_record_step:
  "ledger (record_step line v description m) =
     (if insert_outcome v (db m) = None
      then ledger m @ [\<lparr>vr_Version = v, vr_Description = description, vr_Timestamp = clock (db m)\<rparr>]
      else ledger m)"
  by (simp add: record_step_def SetVersion_ledger)

lemma SetVersion_split:
  "SetVersion v description (Printf line m) =
     (insert_outcome v (db m), record_step line v description m)"
  by (simp add: record_step_def prod_eq_iff SetVersion_fst)

lemma up_loop_exit: "\<not> (i < length ms \<and> p < n) \<Longrightarrow> up_loop ms n i p m = (None, m)"
  by (subst up_loop.simps) auto

lemma up_loop_skip:
  assumes "i < length ms" and "p < n" and "mg_Up (ms ! i) = None"
  shows "up_loop ms n i p m = up_loop ms n (Suc i) p m"
  using assms by (subst up_loop.simps) (simp add: Applied_eq Let_def)

lemma up_loop_action_error:
  assumes "i < length ms" and "p < n" and "mg_Up (ms ! i) = Some a"
    and "a (db m) = (Some e, d)"
  shows "up_loop ms n i p m = (Some e, after_action (CallUp (mg_Version (ms ! i))) d m)"
  using assms by (subst up_loop.simps) (simp add: Applied_eq Let_def after_action_def)

lemma up_loop_run:
  assumes "i < length ms" and "p < n" and "mg_Up (ms ! i) = Some a"
    and "a (db m) = (None, d)"
  shows "up_loop ms n i p m =
           (case insert_outcome (mg_Version (ms ! i)) d of
              Some err \<Rightarrow>
                (Some err, record_step (MIGRATED_UP (mg_Version (ms ! i)) (mg_Description (ms ! i)))
                             (mg_Version (ms ! i)) (mg_Description (ms ! i))
                             (after_action (CallUp (mg_Version (ms ! i))) d m))
            | None \<Rightarrow>
                up_loop ms n (Suc i) (Suc p)
                  (record_step (MIGRATED_UP (mg_Version (ms ! i)) (mg_Description (ms ! i)))
                     (mg_Version (ms ! i)) (mg_Description (ms ! i))
                     (after_action (CallUp (mg_Version (ms ! i))) d m)))"
proof -
  have "SetVersion (mg_Version (ms ! i)) (mg_Description (ms ! i))
          (Printf (MIGRATED_UP (mg_Version (ms ! i)) (mg_Description (ms ! i)))
             (m\<lparr>db := d, calls := calls m @ [CallUp (mg_Version (ms ! i))]\<rparr>)) =
        (insert_outcome (mg_Version (ms ! i)) d,
         record_step (MIGRATED_UP (mg_Version (ms ! i)) (mg_Description (ms ! i)))
           (mg_Version (ms ! i)) (mg_Description (ms ! i))
           (after_action (CallUp (mg_Version (ms ! i))) d m))"
    using SetVersion_split
      [of "mg_Version (ms ! i)" "mg_Description (ms ! i)"
          "MIGRATED_UP (mg_Version (ms ! i)) (mg_Description (ms ! i))"
          "after_action (CallUp (mg_Version (ms ! i))) d m"]
    by (simp add: after_action_def)
  then show ?thesis
    using assms
    by (subst up_loop.simps) (simp add: Applied_eq Let_def split: option.splits)
qed

lemma up_loop_cases [case_names exit skip action_error insert_error performed]:
  obtains
    (exit) "\<not> (i < length ms \<and> p < n)" and "up_loop ms n i p m = (None, m)"
  | (skip) "i < length ms" and "p < n" and "mg_Up (ms ! i) = None"
      and "up_loop ms n i p m = up_loop ms n (Suc i) p m"
  | (action_error) a e d where "i < length ms" and "p < n"
      and "mg_Up (ms ! i) = Some a" and "a (db m) = (Some e, d)"
      and "up_loop ms n i p m = (Some e, after_action (CallUp (mg_Version (ms ! i))) d m)"
  | (insert_error) a e d where "i < length ms" and "p < n"
      and "mg_Up (ms ! i) = Some a" and "a (db m) = (None, d)"
      and "insert_outcome (mg_Version (ms ! i)) d = Some e"
      and "up_loop ms n i p m =
             (Some e, record_step (MIGRATED_UP (mg_Version (ms ! i)) (mg_Description (ms ! i)))
                        (mg_Version (ms ! i)) (mg_Description (ms ! i))
                        (after_action (CallUp (mg_Version (ms ! i))) d m))"
  | (performed) a d where "i < length ms" and "p < n"
      and "mg_Up (ms ! i) = Some a" and "a (db m) = (None, d)"
      and "insert_outcome (mg_Version (ms ! i)) d = None"
      and "up_loop ms n i p m =
             up_loop ms n (Suc i) (Suc p)
               (record_step (MIGRATED_UP (mg_Version (ms ! i)) (mg_Description (ms ! i)))
                  (mg_Version (ms ! i)) (mg_Description (ms ! i))
                  (after_action (CallUp (mg_Version (ms ! i))) d m))"
proof (cases "i < length ms \<and> p < n")
  case False
  then show ?thesis using exit up_loop_exit by blast
next
  case True
  then have i: "i < length ms" and p: "p < n" by simp_all
  show ?thesis
  proof (cases "mg_Up (ms ! i)")
    case None
    then show ?thesis using skip [OF i p] up_loop_skip [OF i p] by blast
  next
    case (Some a)
    obtain r d where act: "a (db m) = (r, d)" by (cases "a (db m)")
    show ?thesis
    proof (cases r)
      case (Some e)
      with act have act': "a (db m) = (Some e, d)" by simp
      show ?thesis
        using action_error [OF i p \<open>mg_Up (ms ! i) = Some a\<close> act']
          up_loop_action_error [OF i p \<open>mg_Up (ms ! i) = Some a\<close> act']
        by simp
    next
      case None
      with act have act': "a (db m) = (None, d)" by simp
      note unfold = up_loop_run [OF i p \<open>mg_Up (ms ! i) = Some a\<close> act']
      show ?thesis
      proof (cases "insert_outcome (mg_Version (ms ! i)) d")
        case None
        then show ?thesis
          using performed [OF i p \<open>mg_Up (ms ! i) = Some a\<close> act'] unfold by simp
      next
        case (Some e)
        then show ?thesis
          using insert_error [OF i p \<open>mg_Up (ms ! i) = Some a\<close> act'] unfold by simp
      qed
    qed
  qed
qed

lemma down_loop_exit: "\<not> p < n \<Longrightarrow> down_loop ms cur n k p m = (None, m)"
  by (cases k) (simp_all add: down_loop.simps)

lemma down_loop_skip:
  assumes "p < n" and "cur < mg_Version (ms ! i) \<or> mg_Down (ms ! i) = None"
  shows "down_loop ms cur n (Suc i) p m = down_loop ms cur n i p m"
  using assms by (auto simp: down_loop.simps Let_def split: option.splits)

lemma down_loop_action_error:
  assumes "p < n" and "\<not> cur < mg_Version (ms ! i)" and "mg_Down (ms ! i) = Some a"
    and "a (db m) = (Some e, d)"
  shows "down_loop ms cur n (Suc i) p m =
           (Some e, after_action (CallDown (mg_Version (ms ! i))) d m)"
  using assms by (simp add: down_loop.simps Let_def after_action_def)

lemma down_loop_run:
  assumes "p < n" and "\<not> cur < mg_Version (ms ! i)" and "mg_Down (ms ! i) = Some a"
    and "a (db m) = (None, d)"
  shows "down_loop ms cur n (Suc i) p m =
           (case insert_outcome (mg_Version (predecessor ms i)) d of
              Some err \<Rightarrow>
                (Some err, record_step (MIGRATED_DOWN (mg_Version (ms ! i)) (mg_Description (ms ! i)))
                             (mg_Version (predecessor ms i)) (mg_Description (predecessor ms i))
                             (after_action (CallDown (mg_Version (ms ! i))) d m))
            | None \<Rightarrow>
                down_loop ms cur n i (Suc p)
                  (record_step (MIGRATED_DOWN (mg_Version (ms ! i)) (mg_Description (ms ! i)))
                     (mg_Version (predecessor ms i)) (mg_Description (predecessor ms i))
                     (after_action (CallDown (mg_Version (ms ! i))) d m)))"
proof -
  have "SetVersion (mg_Version (predecessor ms i)) (mg_Description (predecessor ms i))
          (Printf (MIGRATED_DOWN (mg_Version (ms ! i)) (mg_Description (ms ! i)))
             (m\<lparr>db := d, calls := calls m @ [CallDown (mg_Version (ms ! i))]\<rparr>)) =
        (insert_outcome (mg_Version (predecessor ms i)) d,
         record_step (MIGRATED_DOWN (mg_Version (ms ! i)) (mg_Description (ms ! i)))
           (mg_Version (predecessor ms i)) (mg_Description (predecessor ms i))
           (after_action (CallDown (mg_Version (ms ! i))) d m))"
    using SetVersion_split
      [of "mg_Version (predecessor ms i)" "mg_Description (predecessor ms i)"
          "MIGRATED_DOWN (mg_Version (ms ! i)) (mg_Description (ms ! i))"
          "after_action (CallDown (mg_Version (ms ! i))) d m"]
    by (simp add: after_action_def)
  then show ?thesis
    using assms
    by (simp add: down_loop.simps Let_def predecessor_def split: option.splits)
qed

lemma down_loop_cases [case_names exit skip action_error insert_error performed]:
  obtains
    (exit) "\<not> p < n" and "down_loop ms cur n (Suc i) p m = (None, m)"
  | (skip) "p < n" and "cur < mg_Version (ms ! i) \<or> mg_Down (ms ! i) = None"
      and "down_loop ms cur n (Suc i) p m = down_loop ms cur n i p m"
  | (action_error) a e d where "p < n" and "\<not> cur < mg_Version (ms ! i)"
      and "mg_Down (ms ! i) = Some a" and "a (db m) = (Some e, d)"
      and "down_loop ms cur n (Suc i) p m =
             (Some e, after_action (CallDown (mg_Version (ms ! i))) d m)"
  | (insert_error) a e d where "p < n" and "\<not> cur < mg_Version (ms ! i)"
      and "mg_Down (ms ! i) = Some a" and "a (db m) = (None, d)"
      and "insert_outcome (mg_Version (predecessor ms i)) d = Some e"
      and "down_loop ms cur n (Suc i) p m =
             (Some e, record_step (MIGRATED_DOWN (mg_Version (ms ! i)) (mg_Description (ms ! i)))
                        (mg_Version (predecessor ms i)) (mg_Description (predecessor ms i))
                        (after_action (CallDown (mg_Version (ms ! i))) d m))"
  | (performed) a d where "p < n" and "\<not> cur < mg_Version (ms ! i)"
      and "mg_Down (ms ! i) = Some a" and "a (db m) = (None, d)"
      and "insert_outcome (mg_Version (predecessor ms i)) d = None"
      and "down_loop ms cur n (Suc i) p m =
             down_loop ms cur n i (Suc p)
               (record_step (MIGRATED_DOWN (mg_Version (ms ! i)) (mg_Description (ms ! i)))
                  (mg_Version (predecessor ms i)) (mg_Description (predecessor ms i))
                  (after_action (CallDown (mg_Version (ms ! i))) d m))"
proof (cases "p < n")
  case False
  then show ?thesis using exit down_loop_exit by blast
next
  case p: True
  show ?thesis
  proof (cases "cur < mg_Version (ms ! i) \<or> mg_Down (ms ! i) = None")
    case True
    then show ?thesis using skip [OF p] down_loop_skip [OF p] by blast
  next
    case False
    then obtain a where nc: "\<not> cur < mg_Version (ms ! i)"
      and a: "mg_Down (ms ! i) = Some a" by auto
    obtain r d where act: "a (db m) = (r, d)" by (cases "a (db m)")
    show ?thesis
    proof (cases r)
      case (Some e)
      with act have act': "a (db m) = (Some e, d)" by simp
      show ?thesis
        using action_error [OF p nc a act'] down_loop_action_error [OF p nc a act'] by simp
    next
      case None
      with act have act': "a (db m) = (None, d)" by simp
      note unfold = down_loop_run [OF p nc a act']
      show ?thesis
      proof (cases "insert_outcome (mg_Version (predecessor ms i)) d")
        case None
        then show ?thesis using performed [OF p nc a act'] unfold by simp
      next
        case (Some e)
        then show ?thesis using insert_error [OF p nc a act'] unfold by simp
      qed
    qed
  qed
qed

lemma up_action_leaves_store:
  assumes "actions_leave_store ms" and "i < length ms" and "mg_Up (ms ! i) = Some a"
    and "a d0 = (r, d)"
  shows "colls d = colls d0" and "pending d = pending d0"
proof -
  have "leaves_store a"
    using assms(1-3) by (auto simp: actions_leave_store_def list_all_length)
  then have "colls (snd (a d0)) = colls d0 \<and> pending (snd (a d0)) = pending d0"
    by (simp add: leaves_store_def)
  then show "colls d = colls d0" and "pending d = pending d0"
    using assms(4) by simp_all
qed

lemma down_action_leaves_store:
  assumes "actions_leave_store ms" and "i < length ms" and "mg_Down (ms ! i) = Some a"
    and "a d0 = (r, d)"
  shows "colls d = colls d0" and "pending d = pending d0"
proof -
  have "leaves_store a"
    using assms(1-3) by (auto simp: actions_leave_store_def list_all_length)
  then have "colls (snd (a d0)) = colls d0 \<and> pending (snd (a d0)) = pending d0"
    by (simp add: leaves_store_def)
  then show "colls d = colls d0" and "pending d = pending d0"
    using assms(4) by simp_all
qed

section \<open>Whole runs\<close>

lemma up_loop_progress:
  assumes safe: "actions_leave_store ms"
  shows "\<exists>new added.
           calls (snd (up_loop ms n i p m)) = calls m @ map CallUp new
         \<and> ledger (snd (up_loop ms n i p m)) = ledger m @ added
         \<and> map vr_Version added = (if fst (up_loop ms n i p m) = None then new else butlast new)
         \<and> (fst (up_loop ms n i p m) = None \<or> new \<noteq> [])
         \<and> migrationsCollection (snd (up_loop ms n i p m)) = migrationsCollection m"
proof (induction "length ms - i" arbitrary: i p m)
  case 0
  then have "up_loop ms n i p m = (None, m)" by (simp add: up_loop_exit)
  then show ?case by simp
next
  case (Suc k)
  have k: "k = length ms - Suc i" using Suc.hyps(2) by simp
  show ?case
  proof (cases rule: up_loop_cases [of i ms p n m])
    case exit
    then show ?thesis by simp
  next
    case skip
    from Suc.hyps(1) [OF k, of p m] show ?thesis by (simp add: skip(4))
  next
    case (action_error a e d)
    have "colls d = colls (db m)"
      using up_action_leaves_store(1) [OF safe action_error(1,3,4)] .
    then have "ledger (snd (up_loop ms n i p m)) = ledger m"
      by (simp add: action_error(5) ledger_after_action)
    then show ?thesis
      by (intro exI [of _ "[mg_Version (ms ! i)]"] exI [of _ "[]"]) (simp add: action_error(5))
  next
    case (insert_error a e d)
    have "colls d = colls (db m)"
      using up_action_leaves_store(1) [OF safe insert_error(1,3,4)] .
    then have "ledger (snd (up_loop ms n i p m)) = ledger m"
      by (simp add: insert_error(5,6) ledger_record_step ledger_after_action)
    then show ?thesis
      by (intro exI [of _ "[mg_Version (ms ! i)]"] exI [of _ "[]"]) (simp add: insert_error(6))
  next
    case (performed a d)
    let ?v = "mg_Version (ms ! i)"
    let ?m3 = "record_step (MIGRATED_UP ?v (mg_Description (ms ! i))) ?v (mg_Description (ms ! i))
                 (after_action (CallUp ?v) d m)"
    let ?r = "\<lparr>vr_Version = ?v, vr_Description = mg_Description (ms ! i), vr_Timestamp = clock d\<rparr>"
    have cd: "colls d = colls (db m)"
      using up_action_leaves_store(1) [OF safe performed(1,3,4)] .
    have l3: "ledger ?m3 = ledger m @ [?r]"
      by (simp add: performed(5) ledger_record_step ledger_after_action [OF cd])
    have c3: "calls ?m3 = calls m @ [CallUp ?v]" by simp
    from Suc.hyps(1) [OF k, of "Suc p" ?m3]
    obtain new added where
      ih: "calls (snd (up_loop ms n (Suc i) (Suc p) ?m3)) = calls ?m3 @ map CallUp new"
        "ledger (snd (up_loop ms n (Suc i) (Suc p) ?m3)) = ledger ?m3 @ added"
        "map vr_Version added =
           (if fst (up_loop ms n (Suc i) (Suc p) ?m3) = None then new else butlast new)"
        "fst (up_loop ms n (Suc i) (Suc p) ?m3) = None \<or> new \<noteq> []"
        "migrationsCollection (snd (up_loop ms n (Suc i) (Suc p) ?m3)) = migrationsCollection ?m3"
      by blast
    show ?thesis
      using ih l3 c3
      by (intro exI [of _ "?v # new"] exI [of _ "?r # added"]) (auto simp: performed(6))
  qed
qed

lemma down_loop_progress:
  assumes safe: "actions_leave_store ms"
  shows "k \<le> length ms \<Longrightarrow>
         \<exists>new added.
           calls (snd (down_loop ms cur n k p m)) = calls m @ map CallDown new
         \<and> ledger (snd (down_loop ms cur n k p m)) = ledger m @ added
         \<and> length added = length (if fst (down_loop ms cur n k p m) = None then new else butlast new)
         \<and> (fst (down_loop ms cur n k p m) = None \<or> new \<noteq> [])
         \<and> migrationsCollection (snd (down_loop ms cur n k p m)) = migrationsCollection m"
proof (induction k arbitrary: p m)
  case 0
  then show ?case by (simp add: down_loop.simps)
next
  case (Suc i)
  then have i: "i < length ms" and i': "i \<le> length ms" by simp_all
  show ?case
  proof (cases rule: down_loop_cases [of p n ms cur i m])
    case exit
    then show ?thesis by simp
  next
    case skip
    from Suc.IH [OF i', of p m] show ?thesis by (simp add: skip(3))
  next
    case (action_error a e d)
    have "colls d = colls (db m)"
      using down_action_leaves_store(1) [OF safe i action_error(3,4)] .
    then have "ledger (snd (down_loop ms cur n (Suc i) p m)) = ledger m"
      by (simp add: action_error(5) ledger_after_action)
    then show ?thesis
      by (intro exI [of _ "[mg_Version (ms ! i)]"] exI [of _ "[]"]) (simp add: action_error(5))
  next
    case (insert_error a e d)
    have "colls d = colls (db m)"
      using down_action_leaves_store(1) [OF safe i insert_error(3,4)] .
    then have "ledger (snd (down_loop ms cur n (Suc i) p m)) = ledger m"
      by (simp add: insert_error(5,6) ledger_record_step ledger_after_action)
    then show ?thesis
      by (intro exI [of _ "[mg_Version (ms ! i)]"] exI [of _ "[]"]) (simp add: insert_error(6))
  next
    case (performed a d)
    let ?v = "mg_Version (ms ! i)"
    let ?m3 = "record_step (MIGRATED_DOWN ?v (mg_Description (ms ! i)))
                 (mg_Version (predecessor ms i)) (mg_Description (predecessor ms i))
                 (after_action (CallDown ?v) d m)"
    let ?r = "\<lparr>vr_Version = mg_Version (predecessor ms i),
               vr_Description = mg_Description (predecessor ms i), vr_Timestamp = clock d\<rparr>"
    have cd: "colls d = colls (db m)"
      using down_action_leaves_store(1) [OF safe i performed(3,4)] .
    have l3: "ledger ?m3 = ledger m @ [?r]"
      by (simp add: performed(5) ledger_record_step ledger_after_action [OF cd])
    have c3: "calls ?m3 = calls m @ [CallDown ?v]" by simp
    from Suc.IH [OF i', of "Suc p" ?m3]
    obtain new added where
      ih: "calls (snd (down_loop ms cur n i (Suc p) ?m3)) = calls ?m3 @ map CallDown new"
        "ledger (snd (down_loop ms cur n i (Suc p) ?m3)) = ledger ?m3 @ added"
        "length added =
           length (if fst (down_loop ms cur n i (Suc p) ?m3) = None then new else butlast new)"
        "fst (down_loop ms cur n i (Suc p) ?m3) = None \<or> new \<noteq> []"
        "migrationsCollection (snd (down_loop ms cur n i (Suc p) ?m3)) = migrationsCollection ?m3"
      by blast
    show ?thesis
      using ih l3 c3
      by (intro exI [of _ "?v # new"] exI [of _ "?r # added"]) (auto simp: performed(6))
  qed
qed

lemma actions_leave_store_sort:
  "actions_leave_store (migrationSort ms) = actions_leave_store ms"
  by (simp add: actions_leave_store_def migrationSort_def list_all_iff)

lemma ledger_migrations_update [simp]: "ledger (m\<lparr>migrations := ms\<rparr>) = ledger m"
  by (simp add: ledger_def)

lemma Up_eq:
  "Up n m = up_loop (migrationSort (migrations m)) (steps n (length (migrations m))) 0 0
              (m\<lparr>migrations := migrationSort (migrations m)\<rparr>)"
  by (simp add: Up_def Let_def)

lemma Up_progress:
  assumes "actions_leave_store (migrations m)"
  shows "\<exists>new added.
           calls (snd (Up n m)) = calls m @ map CallUp new
         \<and> ledger (snd (Up n m)) = ledger m @ added
         \<and> map vr_Version added = (if fst (Up n m) = None then new else butlast new)
         \<and> (fst (Up n m) = None \<or> new \<noteq> [])"
proof -
  have "actions_leave_store (migrationSort (migrations m))"
    using assms by (simp add: actions_leave_store_sort)
  from up_loop_progress [OF this, of "steps n (length (migrations m))" 0 0
      "m\<lparr>migrations := migrationSort (migrations m)\<rparr>"]
  obtain new added where
    "calls (snd (Up n m)) = calls m @ map CallUp new"
    "ledger (snd (Up n m)) = ledger m @ added"
    "map vr_Version added = (if fst (Up n m) = None then new else butlast new)"
    "fst (Up n m) = None \<or> new \<noteq> []"
    unfolding Up_eq by auto
  then show ?thesis by blast
qed

lemma up_loop_failure:
  assumes "i < length ms" and "p < k"
    and "mg_Up (ms ! i) = Some a"
    and "a (db st) = (r, d)"
    and "r = Some e \<or> r = None \<and> insert_outcome (mg_Version (ms ! i)) d = Some e"
  shows "fst (up_loop ms k i p st) = Some e
       \<and> calls (snd (up_loop ms k i p st)) = calls st @ [CallUp (mg_Version (ms ! i))]
       \<and> ledger (snd (up_loop ms k i p st)) = documents (migrationsCollection st) d"
proof (cases rule: up_loop_cases [of i ms p k st])
  case exit
  then show ?thesis using assms(1,2) by simp
next
  case skip
  then show ?thesis using assms(3) by simp
next
  case (action_error a' e' d')
  then show ?thesis using assms(3,4,5) by (auto simp: ledger_after_action_eq)
next
  case (insert_error a' e' d')
  then show ?thesis
    using assms(3,4,5) by (auto simp: ledger_record_step ledger_after_action_eq)
next
  case (performed a' d')
  then show ?thesis using assms(3,4,5) by auto
qed

lemma down_loop_failure:
  assumes "p < k" and "\<not> cur < mg_Version (ms ! i)"
    and "mg_Down (ms ! i) = Some a"
    and "a (db st) = (r, d)"
    and "r = Some e \<or> r = None \<and> insert_outcome (mg_Version (predecessor ms i)) d = Some e"
  shows "fst (down_loop ms cur k (Suc i) p st) = Some e
       \<and> calls (snd (down_loop ms cur k (Suc i) p st)) = calls st @ [CallDown (mg_Version (ms ! i))]
       \<and> ledger (snd (down_loop ms cur k (Suc i) p st)) = documents (migrationsCollection st) d"
proof (cases rule: down_loop_cases [of p k ms cur i st])
  case exit
  then show ?thesis using assms(1) by simp
next
  case skip
  then show ?thesis using assms(2,3) by simp
next
  case (action_error a' e' d')
  then show ?thesis using assms(3,4,5) by (auto simp: ledger_after_action_eq)
next
  case (insert_error a' e' d')
  then show ?thesis
    using assms(3,4,5) by (auto simp: ledger_record_step ledger_after_action_eq)
next
  case (performed a' d')
  then show ?thesis using assms(3,4,5) by auto
qed

lemma leaves_store_examples [simp]:
  "leaves_store forward" "leaves_store backward" "leaves_store failing"
  by (simp_all add: leaves_store_def forward_def backward_def failing_def)

lemma actions_leave_store_examples [simp]:
  "actions_leave_store halting_catalog" "actions_leave_store catalog_10_20_30"
  "actions_leave_store reverting_catalog"
  by (simp_all add: actions_leave_store_def halting_catalog_def catalog_10_20_30_def step_def
      broken_def reverting_catalog_def)

section \<open>Claims\<close>

text \<open>
  C1. The round trip on the code, for the catalog 10, 20, 30 fully applied (each entry with
  a forward and a backward action; the database is the one \<open>Up(AllAvailable)\<close> leaves on
  a fresh store). \<open>Down(AllAvailable)\<close> returns the error of the listing that
  \<open>Version\<close> makes first: no backward action is invoked and the ledger keeps its three
  records. The following \<open>Up(AllAvailable)\<close> finds no entry applied and invokes the three
  forward actions again, so that the ledger holds 10, 20, 30 twice.
\<close>

theorem C1_round_trip_on_the_code:
  "db (snd (Up AllAvailable (NewMigrate fresh_db catalog_10_20_30))) = applied_db
   \<and> fst (Down AllAvailable (NewMigrate applied_db catalog_10_20_30)) =
        Some (EncodeError ''filter'')
   \<and> calls (snd (Down AllAvailable (NewMigrate applied_db catalog_10_20_30))) = []
   \<and> map vr_Version (ledger (snd (Down AllAvailable (NewMigrate applied_db catalog_10_20_30)))) =
        [10, 20, 30]
   \<and> fst (Up AllAvailable (snd (Down AllAvailable (NewMigrate applied_db catalog_10_20_30)))) = None
   \<and> calls (snd (Up AllAvailable (snd (Down AllAvailable (NewMigrate applied_db catalog_10_20_30))))) =
        [CallUp 10, CallUp 20, CallUp 30]
   \<and> map vr_Version
        (ledger (snd (Up AllAvailable (snd (Down AllAvailable (NewMigrate applied_db catalog_10_20_30)))))) =
        [10, 20, 30, 10, 20, 30]"
  by code_simp

text \<open>
  C2. On the code \<open>Version\<close> returns an error on every store, also on one whose migrations
  collection exists and is empty: the listing of the collections fails before the
  collection is read.
\<close>

theorem C2_Version_errors_on_every_store:
  "fst (Version m) = (0, [], Some (EncodeError ''filter''))
   \<and> migrationsCollection (NewMigrate initialized_db []) \<in>
        set (map fst (colls (db (NewMigrate initialized_db []))))
   \<and> ledger (NewMigrate initialized_db []) = []
   \<and> fst (Version (NewMigrate initialized_db [])) = (0, [], Some (EncodeError ''filter''))"
proof (intro conjI)
  show "fst (Version m) = (0, [], Some (EncodeError ''filter''))" by (simp add: Version_eq)
  show "migrationsCollection (NewMigrate initialized_db []) \<in>
        set (map fst (colls (db (NewMigrate initialized_db []))))"
    by (simp add: NewMigrate_def initialized_db_def defaultMigrationsCollection_def)
  show "ledger (NewMigrate initialized_db []) = []"
    by (simp add: NewMigrate_def initialized_db_def defaultMigrationsCollection_def
        ledger_def documents_def lookup_collection_def)
  show "fst (Version (NewMigrate initialized_db [])) = (0, [], Some (EncodeError ''filter''))"
    by (simp add: Version_eq)
qed

text \<open>
  C3. On the code a second \<open>Up(AllAvailable)\<close> repeats the first: for the catalog
  10, 20, 30 on a fresh store both runs succeed, and the second invokes the three forward
  actions again and appends three more records.
\<close>

theorem C3_second_up_repeats_every_action:
  "fst (Up AllAvailable (NewMigrate fresh_db catalog_10_20_30)) = None
   \<and> calls (snd (Up AllAvailable (NewMigrate fresh_db catalog_10_20_30))) =
        [CallUp 10, CallUp 20, CallUp 30]
   \<and> fst (Up AllAvailable (snd (Up AllAvailable (NewMigrate fresh_db catalog_10_20_30)))) = None
   \<and> calls (snd (Up AllAvailable (snd (Up AllAvailable (NewMigrate fresh_db catalog_10_20_30))))) =
        [CallUp 10, CallUp 20, CallUp 30, CallUp 10, CallUp 20, CallUp 30]
   \<and> map vr_Version
        (ledger (snd (Up AllAvailable (snd (Up AllAvailable (NewMigrate fresh_db catalog_10_20_30)))))) =
        [10, 20, 30, 10, 20, 30]"
  by code_simp

text \<open>
  C4. On the code \<open>Down\<close> never reaches its loop: for every count and every state it
  returns the error of the listing and leaves the state as it is. For the catalog
  10, 20, 30 fully applied, \<open>Down(1)\<close> invokes no backward action and writes no record.
\<close>

theorem C4_down_stops_before_its_loop:
  "Down n m = (Some (EncodeError ''filter''), m)
   \<and> fst (Down 1 (NewMigrate applied_db catalog_10_20_30)) = Some (EncodeError ''filter'')
   \<and> calls (snd (Down 1 (NewMigrate applied_db catalog_10_20_30))) = []
   \<and> map vr_Version (ledger (snd (Down 1 (NewMigrate applied_db catalog_10_20_30)))) =
        [10, 20, 30]"
proof (intro conjI)
  show "Down n m = (Some (EncodeError ''filter''), m)" by (rule Down_eq)
  show "fst (Down 1 (NewMigrate applied_db catalog_10_20_30)) = Some (EncodeError ''filter'')"
    by (simp add: Down_eq)
  show "calls (snd (Down 1 (NewMigrate applied_db catalog_10_20_30))) = []"
    by (simp add: Down_eq NewMigrate_def)
  show "map vr_Version (ledger (snd (Down 1 (NewMigrate applied_db catalog_10_20_30)))) =
        [10, 20, 30]"
    by code_simp
qed

text \<open>
  C6. On the code \<open>Applied\<close> answers false for every version on every store, also for a
  version that has a record in the ledger.
\<close>

theorem C6_Applied_false_on_every_input:
  "\<not> fst (Applied v m)
   \<and> map vr_Version (ledger (NewMigrate applied_db catalog_10_20_30)) = [10, 20, 30]
   \<and> \<not> fst (Applied 20 (NewMigrate applied_db catalog_10_20_30))"
proof (intro conjI)
  show "\<not> fst (Applied v m)" by (simp add: Applied_eq)
  show "map vr_Version (ledger (NewMigrate applied_db catalog_10_20_30)) = [10, 20, 30]"
    by code_simp
  show "\<not> fst (Applied 20 (NewMigrate applied_db catalog_10_20_30))" by (simp add: Applied_eq)
qed

text \<open>
  C7. On the code \<open>Up\<close> does not pass over the entries that have a record: for the
  catalog 1 to 5 on a fresh store, \<open>Up(2)\<close> applies 1 and 2, and a second \<open>Up(2)\<close>
  applies 1 and 2 again instead of 3 and 4. \<open>Version\<close> then returns the error of the
  listing, not version 2. On a fresh store the catalog registered as 5, 1, 3 is applied in
  the order 1, 3, 5.
\<close>

theorem C7_up_reapplies_recorded_entries:
  "fst (Up 2 (NewMigrate fresh_db catalog_1_to_5)) = None
   \<and> calls (snd (Up 2 (NewMigrate fresh_db catalog_1_to_5))) = [CallUp 1, CallUp 2]
   \<and> map vr_Version (ledger (snd (Up 2 (NewMigrate fresh_db catalog_1_to_5)))) = [1, 2]
   \<and> fst (Version (snd (Up 2 (NewMigrate fresh_db catalog_1_to_5)))) =
        (0, [], Some (EncodeError ''filter''))
   \<and> fst (Up 2 (snd (Up 2 (NewMigrate fresh_db catalog_1_to_5)))) = None
   \<and> calls (snd (Up 2 (snd (Up 2 (NewMigrate fresh_db catalog_1_to_5))))) =
        [CallUp 1, CallUp 2, CallUp 1, CallUp 2]
   \<and> map vr_Version (ledger (snd (Up 2 (snd (Up 2 (NewMigrate fresh_db catalog_1_to_5)))))) =
        [1, 2, 1, 2]
   \<and> calls (snd (Up AllAvailable (NewMigrate fresh_db catalog_5_1_3))) =
        [CallUp 1, CallUp 3, CallUp 5]"
  by code_simp

text \<open>
  C8. On the code an entry that has a record is not skipped by \<open>Up\<close>, and \<open>Down\<close> skips
  nothing because it returns before its loop. For the catalog of an entry 1 with only a
  backward action, an entry 2 with both and an entry 3 with only a forward action, on a
  ledger with records 2 and 3: \<open>Up(AllAvailable)\<close> passes over 1 and invokes the forward
  actions of 2 and 3 again; \<open>Down(1)\<close> returns the error of the listing.
\<close>

theorem C8_applied_entries_are_not_skipped:
  "map vr_Version (ledger (NewMigrate applied_2_3_db skipping_catalog)) = [2, 3]
   \<and> \<not> fst (Applied 2 (NewMigrate applied_2_3_db skipping_catalog))
   \<and> fst (Up AllAvailable (NewMigrate applied_2_3_db skipping_catalog)) = None
   \<and> calls (snd (Up AllAvailable (NewMigrate applied_2_3_db skipping_catalog))) =
        [CallUp 2, CallUp 3]
   \<and> map vr_Version (ledger (snd (Up AllAvailable (NewMigrate applied_2_3_db skipping_catalog)))) =
        [2, 3, 2, 3]
   \<and> fst (Down 1 (NewMigrate applied_2_3_db skipping_catalog)) = Some (EncodeError ''filter'')
   \<and> calls (snd (Down 1 (NewMigrate applied_2_3_db skipping_catalog))) = []"
  by code_simp

text \<open>
  C10. On the code neither \<open>Version\<close> nor \<open>Applied\<close> creates the migrations collection:
  both leave the database as it is, because the listing fails before the create command
  is reached; \<open>Version\<close> returns the error of the listing and \<open>Applied\<close> returns false.
  On a fresh store the collection is still missing after \<open>Version\<close>.
\<close>

theorem C10_reads_never_create_the_collection:
  "db (snd (Version m)) = db m
   \<and> db (snd (Applied v m)) = db m
   \<and> fst (Version m) = (0, [], Some (EncodeError ''filter''))
   \<and> \<not> fst (Applied v m)
   \<and> colls (db (snd (Version (NewMigrate fresh_db [])))) = []
   \<and> colls (db (snd (Applied 7 (NewMigrate fresh_db [])))) = []"
  by (simp add: Version_eq Applied_eq NewMigrate_def fresh_db_def)

text \<open>
  C5. A failing step ends the call with its error, and nothing is rolled back. \<open>Up\<close>, for
  actions that leave the store alone: the calls of a run extend the trace, the ledger only
  grows, and the records appended carry the versions of the invoked steps in order, all of
  them when the run succeeds and all but the last when it returns an error. One iteration
  of the loop of \<open>Up\<close>: when the action returns an error, or returns nil and the insert of
  the record fails, the loop returns that error at once, with this one call added and the
  ledger as the action left it. \<open>Down\<close>: the first step that fails is the listing made by
  \<open>Version\<close>, and \<open>Down\<close> returns its error at once with the state unchanged. Its loop,
  from any index and state, behaves as the loop of \<open>Up\<close> does: every invoked action has
  its record except the last one of a run that returns an error, and a failing action or
  insert is returned at once.
\<close>

theorem C5_first_error_aborts_without_rollback:
  "(actions_leave_store (migrations m) \<longrightarrow>
      (\<exists>new added.
          calls (snd (Up n m)) = calls m @ map CallUp new
        \<and> ledger (snd (Up n m)) = ledger m @ added
        \<and> map vr_Version added = (if fst (Up n m) = None then new else butlast new)))
   \<and> (i < length ms \<and> p < k
        \<and> mg_Up (ms ! i) = Some a
        \<and> a (db st) = (r, d)
        \<and> (r = Some e \<or> r = None \<and> insert_outcome (mg_Version (ms ! i)) d = Some e) \<longrightarrow>
          fst (up_loop ms k i p st) = Some e
        \<and> calls (snd (up_loop ms k i p st)) = calls st @ [CallUp (mg_Version (ms ! i))]
        \<and> ledger (snd (up_loop ms k i p st)) = documents (migrationsCollection st) d)
   \<and> Down n m = (Some (EncodeError ''filter''), m)
   \<and> (actions_leave_store ms \<and> j \<le> length ms \<longrightarrow>
      (\<exists>new added.
          calls (snd (down_loop ms cur k j p st)) = calls st @ map CallDown new
        \<and> ledger (snd (down_loop ms cur k j p st)) = ledger st @ added
        \<and> length added =
            length (if fst (down_loop ms cur k j p st) = None then new else butlast new)))
   \<and> (p < k \<and> \<not> cur < mg_Version (ms ! i)
        \<and> mg_Down (ms ! i) = Some b
        \<and> b (db st) = (r, d)
        \<and> (r = Some e \<or> r = None \<and> insert_outcome (mg_Version (predecessor ms i)) d = Some e) \<longrightarrow>
          fst (down_loop ms cur k (Suc i) p st) = Some e
        \<and> calls (snd (down_loop ms cur k (Suc i) p st)) = calls st @ [CallDown (mg_Version (ms ! i))]
        \<and> ledger (snd (down_loop ms cur k (Suc i) p st)) = documents (migrationsCollection st) d)"
proof (intro conjI impI)
  assume "actions_leave_store (migrations m)"
  from Up_progress [OF this, of n]
  show "\<exists>new added.
          calls (snd (Up n m)) = calls m @ map CallUp new
        \<and> ledger (snd (Up n m)) = ledger m @ added
        \<and> map vr_Version added = (if fst (Up n m) = None then new else butlast new)"
    by blast
next
  assume h: "i < length ms \<and> p < k
        \<and> mg_Up (ms ! i) = Some a
        \<and> a (db st) = (r, d)
        \<and> (r = Some e \<or> r = None \<and> insert_outcome (mg_Version (ms ! i)) d = Some e)"
  then show "fst (up_loop ms k i p st) = Some e"
    and "calls (snd (up_loop ms k i p st)) = calls st @ [CallUp (mg_Version (ms ! i))]"
    and "ledger (snd (up_loop ms k i p st)) = documents (migrationsCollection st) d"
    using up_loop_failure [of i ms p k a st r d e] by blast+
next
  show "Down n m = (Some (EncodeError ''filter''), m)" by (rule Down_eq)
next
  assume "actions_leave_store ms \<and> j \<le> length ms"
  then have safe: "actions_leave_store ms" and j: "j \<le> length ms" by simp_all
  from down_loop_progress [OF safe j, of cur k p st]
  show "\<exists>new added.
          calls (snd (down_loop ms cur k j p st)) = calls st @ map CallDown new
        \<and> ledger (snd (down_loop ms cur k j p st)) = ledger st @ added
        \<and> length added =
            length (if fst (down_loop ms cur k j p st) = None then new else butlast new)"
    by blast
next
  assume h: "p < k \<and> \<not> cur < mg_Version (ms ! i)
        \<and> mg_Down (ms ! i) = Some b
        \<and> b (db st) = (r, d)
        \<and> (r = Some e \<or> r = None \<and> insert_outcome (mg_Version (predecessor ms i)) d = Some e)"
  then show "fst (down_loop ms cur k (Suc i) p st) = Some e"
    and "calls (snd (down_loop ms cur k (Suc i) p st)) = calls st @ [CallDown (mg_Version (ms ! i))]"
    and "ledger (snd (down_loop ms cur k (Suc i) p st)) = documents (migrationsCollection st) d"
    using down_loop_failure [of p k cur ms i b st r d e] by blast+
qed

theorem C5_first_error_aborts_without_rollback_witness:
  "actions_leave_store (migrations (NewMigrate second_insert_fails_db catalog_10_20_30))
   \<and> (\<exists>new added.
          calls (snd (Up AllAvailable (NewMigrate second_insert_fails_db catalog_10_20_30))) =
            calls (NewMigrate second_insert_fails_db catalog_10_20_30) @ map CallUp new
        \<and> ledger (snd (Up AllAvailable (NewMigrate second_insert_fails_db catalog_10_20_30))) =
            ledger (NewMigrate second_insert_fails_db catalog_10_20_30) @ added
        \<and> map vr_Version added =
            (if fst (Up AllAvailable (NewMigrate second_insert_fails_db catalog_10_20_30)) = None
             then new else butlast new))
   \<and> fst (Up AllAvailable (NewMigrate second_insert_fails_db catalog_10_20_30)) =
        Some (Failure ''insert failed'')
   \<and> calls (snd (Up AllAvailable (NewMigrate second_insert_fails_db catalog_10_20_30))) =
        [CallUp 10, CallUp 20]
   \<and> map vr_Version (ledger (snd (Up AllAvailable (NewMigrate second_insert_fails_db catalog_10_20_30)))) =
        [10]
   \<and> (1::nat) < length halting_catalog \<and> (1::nat) < 3
   \<and> mg_Up (halting_catalog ! 1) = Some failing
   \<and> calls (snd (Up 1 (NewMigrate fresh_db halting_catalog))) = [CallUp 1]
   \<and> fst (up_loop halting_catalog 3 1 1 (snd (Up 1 (NewMigrate fresh_db halting_catalog)))) =
        Some (Failure ''action failed'')
   \<and> calls (snd (up_loop halting_catalog 3 1 1 (snd (Up 1 (NewMigrate fresh_db halting_catalog))))) =
        [CallUp 1, CallUp 2]
   \<and> map vr_Version
        (ledger (snd (up_loop halting_catalog 3 1 1 (snd (Up 1 (NewMigrate fresh_db halting_catalog)))))) =
        [1]
   \<and> fst (Down AllAvailable (NewMigrate applied_db reverting_catalog)) = Some (EncodeError ''filter'')
   \<and> actions_leave_store reverting_catalog \<and> (3::nat) \<le> length reverting_catalog
   \<and> (\<exists>new added.
          calls (snd (down_loop reverting_catalog 30 3 3 0 (NewMigrate applied_db reverting_catalog))) =
            calls (NewMigrate applied_db reverting_catalog) @ map CallDown new
        \<and> ledger (snd (down_loop reverting_catalog 30 3 3 0 (NewMigrate applied_db reverting_catalog))) =
            ledger (NewMigrate applied_db reverting_catalog) @ added
        \<and> length added =
            length (if fst (down_loop reverting_catalog 30 3 3 0 (NewMigrate applied_db reverting_catalog)) = None
                    then new else butlast new))
   \<and> fst (down_loop reverting_catalog 30 3 3 0 (NewMigrate applied_db reverting_catalog)) =
        Some (Failure ''action failed'')
   \<and> calls (snd (down_loop reverting_catalog 30 3 3 0 (NewMigrate applied_db reverting_catalog))) =
        [CallDown 30, CallDown 20]
   \<and> map vr_Version
        (ledger (snd (down_loop reverting_catalog 30 3 3 0 (NewMigrate applied_db reverting_catalog)))) =
        [10, 20, 30, 20]
   \<and> \<not> (30::64 word) < mg_Version (reverting_catalog ! 1)
   \<and> mg_Down (reverting_catalog ! 1) = Some failing
   \<and> calls (snd (down_loop reverting_catalog 30 1 3 0 (NewMigrate applied_db reverting_catalog))) =
        [CallDown 30]
   \<and> fst (down_loop reverting_catalog 30 3 2 1
            (snd (down_loop reverting_catalog 30 1 3 0 (NewMigrate applied_db reverting_catalog)))) =
        Some (Failure ''action failed'')
   \<and> calls (snd (down_loop reverting_catalog 30 3 2 1
            (snd (down_loop reverting_catalog 30 1 3 0 (NewMigrate applied_db reverting_catalog))))) =
        [CallDown 30, CallDown 20]
   \<and> map vr_Version (ledger (snd (down_loop reverting_catalog 30 3 2 1
            (snd (down_loop reverting_catalog 30 1 3 0 (NewMigrate applied_db reverting_catalog)))))) =
        [10, 20, 30, 20]"
proof -
  let ?mU = "NewMigrate second_insert_fails_db catalog_10_20_30"
  let ?sU = "snd (Up 1 (NewMigrate fresh_db halting_catalog))"
  let ?mD = "NewMigrate applied_db reverting_catalog"
  let ?sD = "snd (down_loop reverting_catalog 30 1 3 0 ?mD)"
  let ?e = "Failure ''action failed''"
  note T1 = C5_first_error_aborts_without_rollback
    [where m = ?mU and n = AllAvailable and ms = halting_catalog and i = 1 and p = 1 and k = 3
       and st = ?sU and a = failing and r = "Some ?e" and e = ?e and d = "db ?sU"
       and j = 0 and cur = 0 and b = failing]
  note T2 = C5_first_error_aborts_without_rollback
    [where m = ?mD and n = AllAvailable and ms = reverting_catalog and i = 1 and p = 0 and k = 3
       and st = ?mD and a = failing and r = "Some ?e" and e = ?e and d = "db ?mD"
       and j = 3 and cur = 30 and b = failing]
  note T3 = C5_first_error_aborts_without_rollback
    [where m = ?mD and n = AllAvailable and ms = reverting_catalog and i = 1 and p = 1 and k = 3
       and st = ?sD and a = failing and r = "Some ?e" and e = ?e and d = "db ?sD"
       and j = 0 and cur = 30 and b = failing]
  have safe: "actions_leave_store (migrations ?mU)" by (simp add: NewMigrate_def)
  have g: "\<exists>new added.
          calls (snd (Up AllAvailable ?mU)) = calls ?mU @ map CallUp new
        \<and> ledger (snd (Up AllAvailable ?mU)) = ledger ?mU @ added
        \<and> map vr_Version added = (if fst (Up AllAvailable ?mU) = None then new else butlast new)"
    using T1 safe by blast
  have v1: "fst (Up AllAvailable ?mU) = Some (Failure ''insert failed'')" by code_simp
  have v2: "calls (snd (Up AllAvailable ?mU)) = [CallUp 10, CallUp 20]" by code_simp
  have v3: "map vr_Version (ledger (snd (Up AllAvailable ?mU))) = [10]" by code_simp
  have u1: "(1::nat) < length halting_catalog" "(1::nat) < 3"
    by (simp_all add: halting_catalog_def)
  have u3: "mg_Up (halting_catalog ! 1) = Some failing"
    by (simp add: halting_catalog_def broken_def)
  have u4: "failing (db ?sU) = (Some ?e, db ?sU)" by (simp add: failing_def)
  have u5: "calls ?sU = [CallUp 1]" by code_simp
  have uc: "fst (up_loop halting_catalog 3 1 1 ?sU) = Some ?e
          \<and> calls (snd (up_loop halting_catalog 3 1 1 ?sU)) =
              calls ?sU @ [CallUp (mg_Version (halting_catalog ! 1))]
          \<and> ledger (snd (up_loop halting_catalog 3 1 1 ?sU)) =
              documents (migrationsCollection ?sU) (db ?sU)"
    using T1 u1 u3 u4 by blast
  have uc1: "fst (up_loop halting_catalog 3 1 1 ?sU) = Some ?e"
    using uc by (rule conjunct1)
  have "calls ?sU @ [CallUp (mg_Version (halting_catalog ! 1))] = [CallUp 1, CallUp 2]"
    by code_simp
  with uc have uc2: "calls (snd (up_loop halting_catalog 3 1 1 ?sU)) = [CallUp 1, CallUp 2]"
    by metis
  have "map vr_Version (documents (migrationsCollection ?sU) (db ?sU)) = [1]"
    by code_simp
  with uc have uc3: "map vr_Version (ledger (snd (up_loop halting_catalog 3 1 1 ?sU))) = [1]"
    by metis
  have dt: "fst (Down AllAvailable ?mD) = Some (EncodeError ''filter'')"
  proof -
    have "Down AllAvailable ?mD = (Some (EncodeError ''filter''), ?mD)"
      using T2 by blast
    then show ?thesis by simp
  qed
  have l1: "actions_leave_store reverting_catalog" by simp
  have l2: "(3::nat) \<le> length reverting_catalog" by (simp add: reverting_catalog_def)
  have lg: "\<exists>new added.
          calls (snd (down_loop reverting_catalog 30 3 3 0 ?mD)) = calls ?mD @ map CallDown new
        \<and> ledger (snd (down_loop reverting_catalog 30 3 3 0 ?mD)) = ledger ?mD @ added
        \<and> length added =
            length (if fst (down_loop reverting_catalog 30 3 3 0 ?mD) = None
                    then new else butlast new)"
    using T2 l1 l2 by blast
  have w1: "fst (down_loop reverting_catalog 30 3 3 0 ?mD) = Some ?e" by code_simp
  have w2: "calls (snd (down_loop reverting_catalog 30 3 3 0 ?mD)) = [CallDown 30, CallDown 20]"
    by code_simp
  have w3: "map vr_Version (ledger (snd (down_loop reverting_catalog 30 3 3 0 ?mD))) =
              [10, 20, 30, 20]"
    by code_simp
  have d1: "\<not> (30::64 word) < mg_Version (reverting_catalog ! 1)"
    by (simp add: reverting_catalog_def broken_def)
  have d2: "mg_Down (reverting_catalog ! 1) = Some failing"
    by (simp add: reverting_catalog_def broken_def)
  have d3: "failing (db ?sD) = (Some ?e, db ?sD)" by (simp add: failing_def)
  have d5: "calls ?sD = [CallDown 30]" by code_simp
  have s2: "Suc 1 = 2" by simp
  have dc: "fst (down_loop reverting_catalog 30 3 (Suc 1) 1 ?sD) = Some ?e
          \<and> calls (snd (down_loop reverting_catalog 30 3 (Suc 1) 1 ?sD)) =
              calls ?sD @ [CallDown (mg_Version (reverting_catalog ! 1))]
          \<and> ledger (snd (down_loop reverting_catalog 30 3 (Suc 1) 1 ?sD)) =
              documents (migrationsCollection ?sD) (db ?sD)"
    using T3 u1(2) d1 d2 d3 by blast
  have dc1: "fst (down_loop reverting_catalog 30 3 2 1 ?sD) = Some ?e"
    using dc unfolding s2 by (rule conjunct1)
  have "calls ?sD @ [CallDown (mg_Version (reverting_catalog ! 1))] = [CallDown 30, CallDown 20]"
    by code_simp
  with dc have dc2: "calls (snd (down_loop reverting_catalog 30 3 2 1 ?sD)) =
                       [CallDown 30, CallDown 20]"
    unfolding s2 by metis
  have "map vr_Version (documents (migrationsCollection ?sD) (db ?sD)) = [10, 20, 30, 20]"
    by code_simp
  with dc have dc3: "map vr_Version (ledger (snd (down_loop reverting_catalog 30 3 2 1 ?sD))) =
                       [10, 20, 30, 20]"
    unfolding s2 by metis
  show ?thesis
    by (intro conjI)
       (fact safe g v1 v2 v3 u1 u3 u5 uc1 uc2 uc3 dt l1 l2 lg w1 w2 w3 d1 d2 d5 dc1 dc2 dc3)+
qed

text \<open>
  C9. The ledger is append-only. \<open>Version\<close> and \<open>Applied\<close> leave its records as they
  are. \<open>SetVersion\<close> appends one record, stamped with the clock, when the insert succeeds,
  and leaves the ledger unchanged when it fails. After \<open>Up\<close>, whose actions leave the store
  alone, the old ledger is a prefix of the new one. \<open>Down\<close> leaves the ledger as it is,
  and its loop, from any index and state, only extends it.
\<close>

theorem C9_ledger_append_only:
  "ledger (snd (Version m)) = ledger m
   \<and> ledger (snd (Applied v m)) = ledger m
   \<and> ledger (snd (SetVersion v description m)) =
        (if insert_outcome v (db m) = None
         then ledger m @
              [\<lparr>vr_Version = v, vr_Description = description, vr_Timestamp = clock (db m)\<rparr>]
         else ledger m)
   \<and> (actions_leave_store (migrations m) \<longrightarrow>
        prefix (ledger m) (ledger (snd (Up n m))) \<and> prefix (ledger m) (ledger (snd (Down n m))))
   \<and> ledger (snd (Down n m)) = ledger m
   \<and> (actions_leave_store ms \<and> j \<le> length ms \<longrightarrow>
        prefix (ledger st) (ledger (snd (down_loop ms cur k j p st))))"
proof (intro conjI impI)
  show "ledger (snd (Version m)) = ledger m" by (simp add: Version_eq)
  show "ledger (snd (Applied v m)) = ledger m" by (simp add: Applied_eq)
  show "ledger (snd (SetVersion v description m)) =
        (if insert_outcome v (db m) = None
         then ledger m @
              [\<lparr>vr_Version = v, vr_Description = description, vr_Timestamp = clock (db m)\<rparr>]
         else ledger m)"
    by (rule SetVersion_ledger)
  show "ledger (snd (Down n m)) = ledger m" by (simp add: Down_eq)
next
  assume "actions_leave_store (migrations m)"
  from Up_progress [OF this, of n] show "prefix (ledger m) (ledger (snd (Up n m)))"
    by (auto simp: prefix_def)
next
  assume "actions_leave_store (migrations m)"
  show "prefix (ledger m) (ledger (snd (Down n m)))" by (simp add: Down_eq)
next
  assume "actions_leave_store ms \<and> j \<le> length ms"
  then have safe: "actions_leave_store ms" and j: "j \<le> length ms" by simp_all
  from down_loop_progress [OF safe j, of cur k p st]
  show "prefix (ledger st) (ledger (snd (down_loop ms cur k j p st)))"
    by (auto simp: prefix_def)
qed

theorem C9_ledger_append_only_witness:
  "actions_leave_store (migrations (NewMigrate first_applied_db catalog_10_20_30))
   \<and> prefix (ledger (NewMigrate first_applied_db catalog_10_20_30))
        (ledger (snd (Up AllAvailable (NewMigrate first_applied_db catalog_10_20_30))))
   \<and> prefix (ledger (NewMigrate first_applied_db catalog_10_20_30))
        (ledger (snd (Down AllAvailable (NewMigrate first_applied_db catalog_10_20_30))))
   \<and> map vr_Version (ledger (NewMigrate first_applied_db catalog_10_20_30)) = [10]
   \<and> map vr_Version (ledger (snd (Up AllAvailable (NewMigrate first_applied_db catalog_10_20_30)))) =
        [10, 10, 20, 30]
   \<and> map vr_Version (ledger (snd (Down AllAvailable (NewMigrate first_applied_db catalog_10_20_30)))) =
        [10]
   \<and> actions_leave_store catalog_10_20_30 \<and> (3::nat) \<le> length catalog_10_20_30
   \<and> prefix (ledger (NewMigrate applied_db catalog_10_20_30))
        (ledger (snd (down_loop catalog_10_20_30 30 3 3 0 (NewMigrate applied_db catalog_10_20_30))))
   \<and> map vr_Version
        (ledger (snd (down_loop catalog_10_20_30 30 3 3 0 (NewMigrate applied_db catalog_10_20_30)))) =
        [10, 20, 30, 20, 10, 0]
   \<and> map vr_Version (ledger (snd (SetVersion 7 ''seven'' (NewMigrate first_applied_db [])))) = [10, 7]
   \<and> map vr_Version
        (ledger (snd (SetVersion 9223372036854775808 ''big'' (NewMigrate first_applied_db [])))) = [10]"
proof -
  let ?m = "NewMigrate first_applied_db catalog_10_20_30"
  let ?a = "NewMigrate applied_db catalog_10_20_30"
  note T = C9_ledger_append_only [where m = ?m and v = 0 and description = "[]"
      and n = AllAvailable and ms = catalog_10_20_30 and j = 3 and st = ?a and cur = 30
      and k = 3 and p = 0]
  have safe: "actions_leave_store (migrations ?m)" by (simp add: NewMigrate_def)
  have p1: "prefix (ledger ?m) (ledger (snd (Up AllAvailable ?m)))"
    using T safe by blast
  have p2: "prefix (ledger ?m) (ledger (snd (Down AllAvailable ?m)))"
    using T safe by blast
  have v0: "map vr_Version (ledger ?m) = [10]" by code_simp
  have v1: "map vr_Version (ledger (snd (Up AllAvailable ?m))) = [10, 10, 20, 30]" by code_simp
  have v2: "map vr_Version (ledger (snd (Down AllAvailable ?m))) = [10]" by code_simp
  have l1: "actions_leave_store catalog_10_20_30" by simp
  have l2: "(3::nat) \<le> length catalog_10_20_30" by (simp add: catalog_10_20_30_def)
  have p3: "prefix (ledger ?a) (ledger (snd (down_loop catalog_10_20_30 30 3 3 0 ?a)))"
    using T l1 l2 by blast
  have v3: "map vr_Version (ledger (snd (down_loop catalog_10_20_30 30 3 3 0 ?a))) =
              [10, 20, 30, 20, 10, 0]"
    by code_simp
  have v4: "map vr_Version (ledger (snd (SetVersion 7 ''seven'' (NewMigrate first_applied_db [])))) =
              [10, 7]"
    by code_simp
  have v5: "map vr_Version
        (ledger (snd (SetVersion 9223372036854775808 ''big'' (NewMigrate first_applied_db [])))) = [10]"
    by code_simp
  show ?thesis by (intro conjI) (fact safe p1 p2 v0 v1 v2 l1 l2 p3 v3 v4 v5)+
qed

end
